theory Spec2Isabelle
  imports Main "HOL-Library.Word" "HOL-Library.Finite_Map"
begin

section \<open>Encodium: the deprecated \<open>Field\<close> API of \<open>encodium/__init__.py\<close>\<close>

text \<open>
  A shallow embedding of the module: Python's \<open>bytes\<close> are lists of 8-bit words, Python's
  unbounded \<open>int\<close> is \<open>int\<close>, lengths and indices are \<open>nat\<close>, and every exception the
  module or the interpreter raises is a value of type \<open>error\<close>; a function that may raise
  returns \<open>error + 'a\<close> with \<open>Inl\<close> for the exception.
\<close>

subsection \<open>Bytes, integers and exceptions\<close>

type_synonym byte = "8 word"
type_synonym bytes = "byte list"

datatype error =
    ValidationError string
  | OverflowError
  | TypeError
  | AttributeError
  | UnicodeEncodeError
  | UnicodeDecodeError
  | NotImplementedError string
  | Exception string

text \<open>\<open>int.bit_length()\<close>: the number of bits of the absolute value; 0 for 0.\<close>

fun bit_length_nat :: "nat \<Rightarrow> nat" where
  "bit_length_nat n = (if n = 0 then 0 else Suc (bit_length_nat (n div 2)))"

declare bit_length_nat.simps [simp del]

definition bit_length :: "int \<Rightarrow> nat" where
  "bit_length i = bit_length_nat (nat \<bar>i\<bar>)"

text \<open>The \<open>k\<close> low-order bytes of \<open>n\<close>, most significant first, and the value of a
  big-endian byte string.\<close>

fun be_bytes :: "nat \<Rightarrow> nat \<Rightarrow> bytes" where
  "be_bytes 0 n = []"
| "be_bytes (Suc k) n = be_bytes k (n div 256) @ [of_nat (n mod 256)]"

definition from_be :: "bytes \<Rightarrow> nat" where
  "from_be bs = foldl (\<lambda>acc b. acc * 256 + unat b) 0 bs"

text \<open>
  \<open>int.to_bytes(n, 'big', signed=...)\<close> raises \<open>OverflowError\<close> when the value does not fit
  in \<open>n\<close> bytes, and for a negative value in the unsigned case. A signed value is written in
  two's complement. \<open>int.from_bytes(data, 'big', signed=...)\<close> never raises; the empty
  string gives 0.
\<close>

definition to_bytes :: "int \<Rightarrow> nat \<Rightarrow> bool \<Rightarrow> error + bytes" where
  "to_bytes i n is_signed =
     (if is_signed then
        (if - (2 ^ (8 * n - 1)) \<le> i \<and> i < 2 ^ (8 * n - 1)
         then Inr (be_bytes n (nat (i mod 2 ^ (8 * n))))
         else Inl OverflowError)
      else
        (if i < 0 then Inl OverflowError
         else if i < 2 ^ (8 * n) then Inr (be_bytes n (nat i))
         else Inl OverflowError))"

definition from_bytes :: "bytes \<Rightarrow> bool \<Rightarrow> int" where
  "from_bytes data is_signed =
     (if is_signed \<and> data \<noteq> [] \<and> 0x80 \<le> unat (hd data)
      then int (from_be data) - 2 ^ (8 * length data)
      else int (from_be data))"

text \<open>The slice \<open>xs[a:b]\<close> for \<open>0 \<le> a\<close>, \<open>0 \<le> b\<close>: it is cut at the end of \<open>xs\<close> and
  never raises.\<close>

definition slice :: "'a list \<Rightarrow> nat \<Rightarrow> nat \<Rightarrow> 'a list" where
  "slice xs a b = take (b - a) (drop a xs)"

subsection \<open>The length codec\<close>

text \<open>
  \<open>encode_length\<close> and \<open>decode_length\<close> are local functions of \<open>Field.serialize\<close> and
  \<open>Field.deserialize\<close>; \<open>List.serialize\<close> and \<open>List.deserialize\<close> hold verbatim copies.
  \<open>x >> 3\<close> is \<open>drop_bit 3 x\<close>. \<open>bytes([v])\<close> would raise for \<open>v > 255\<close>; it is reached
  only with \<open>v \<le> 6 + 0xf9\<close>.
\<close>

definition encode_length :: "nat \<Rightarrow> error + bytes" where
  "encode_length len =
     (case to_bytes (int len) (drop_bit 3 (bit_length (int len) + 7)) False of
        Inl e \<Rightarrow> Inl e
      | Inr encoded_length \<Rightarrow>
          if 0xfa \<le> len then
            (let encoded_length_length = length encoded_length in
             if 6 < encoded_length_length then Inl (ValidationError ''length too big'')
             else Inr (of_nat (encoded_length_length + 0xf9) # encoded_length))
          else Inr encoded_length)"

definition decode_length :: "bytes \<Rightarrow> nat \<Rightarrow> nat \<times> nat" where
  "decode_length data index =
     (let len = nat (from_bytes (slice data index (index + 1)) False) in
      if 0xfa \<le> len
      then (nat (from_bytes (slice data (index + 1) (index + 1 + (len - 0xf9))) False),
            1 + (len - 0xf9))
      else (len, 1))"

text \<open>The number of bytes \<open>encode_length\<close> asks \<open>to_bytes\<close> for.\<close>

definition byte_count :: "nat \<Rightarrow> nat" where
  "byte_count n = drop_bit 3 (bit_length_nat n + 7)"

subsection \<open>Values and field declarations\<close>

text \<open>
  The values the methods receive: \<open>None\<close>, \<open>bool\<close>, \<open>int\<close>, \<open>str\<close> (a sequence of code
  points), \<open>bytes\<close>, \<open>list\<close>, and an object of some other class, given by the name of its
  class and its attributes (the value whose attributes \<open>Field.serialize\<close> reads).
\<close>

datatype val =
    VNone
  | VBool bool
  | VInt int
  | VStr "nat list"
  | VBytes bytes
  | VList "val list"
  | VInst string "(string, val) fmap"

text \<open>\<open>value.__class__.__name__\<close>\<close>

fun class_name :: "val \<Rightarrow> string" where
  "class_name VNone = ''NoneType''"
| "class_name (VBool b) = ''bool''"
| "class_name (VInt i) = ''int''"
| "class_name (VStr s) = ''str''"
| "class_name (VBytes b) = ''bytes''"
| "class_name (VList l) = ''list''"
| "class_name (VInst name d) = name"

text \<open>The attribute \<open>default\<close> that a field object may carry: a plain value (\<open>None\<close> when
  not given), or a callable together with the value its call returns. No method that can
  run reads it.\<close>

datatype dflt = Value val | Callable val

text \<open>
  A \<open>Field\<close> object with the attributes its methods read. \<open>optional\<close> is the truth value of
  \<open>self.optional\<close>. The built-in subclasses are \<open>String\<close> (attribute \<open>max_length\<close>),
  \<open>Integer\<close> (attribute \<open>signed\<close>), \<open>List\<close> (attribute \<open>inner_field\<close>), \<open>Boolean\<close> and
  \<open>Bytes\<close>. \<open>RecordField\<close> is an object of a subclass without the attribute \<open>type\<close>: the name
  of its class and, when the class defines \<open>fields\<close>, the fields \<open>get_fields\<close> returns, sorted
  by their \<open>_order\<close>.
\<close>

datatype field =
    StringField (optional: bool) (default: dflt) (max_length: "int option")
  | IntegerField (optional: bool) (default: dflt) (is_signed: bool)
  | ListField (optional: bool) (default: dflt) (inner_field: field)
  | BooleanField (optional: bool) (default: dflt)
  | BytesField (optional: bool) (default: dflt)
  | RecordField (optional: bool) (default: dflt) string "(string \<times> field) list option"

text \<open>\<open>self.__class__.__name__\<close>, and \<open>self.type.__name__\<close> for the classes that have the
  class attribute \<open>type\<close>; a record class has none (the assignment to \<open>self.type\<close> in
  \<open>Field.__init__\<close> is never reached).\<close>

fun cls_name :: "field \<Rightarrow> string" where
  "cls_name (StringField opt d m) = ''String''"
| "cls_name (IntegerField opt d s) = ''Integer''"
| "cls_name (ListField opt d f) = ''List''"
| "cls_name (BooleanField opt d) = ''Boolean''"
| "cls_name (BytesField opt d) = ''Bytes''"
| "cls_name (RecordField opt d name fs) = name"

fun type_name :: "field \<Rightarrow> string option" where
  "type_name (StringField opt d m) = Some ''str''"
| "type_name (IntegerField opt d s) = Some ''int''"
| "type_name (ListField opt d f) = Some ''list''"
| "type_name (BooleanField opt d) = Some ''bool''"
| "type_name (BytesField opt d) = Some ''bytes''"
| "type_name (RecordField opt d name fs) = None"

fun get_fields :: "field \<Rightarrow> error + (string \<times> field) list" where
  "get_fields (RecordField opt d name (Some fs)) = Inr fs"
| "get_fields self = Inl (NotImplementedError (cls_name self @ '' has no fields''))"

subsection \<open>Validation\<close>

text \<open>What a \<open>for\<close> loop iterates over, and \<open>len\<close>; both raise \<open>TypeError\<close> on a value
  that has no such protocol.\<close>

fun iterate :: "val \<Rightarrow> error + val list" where
  "iterate (VList l) = Inr l"
| "iterate (VStr s) = Inr (map (\<lambda>c. VStr [c]) s)"
| "iterate (VBytes b) = Inr (map (\<lambda>w. VInt (uint w)) b)"
| "iterate v = Inl TypeError"

fun py_len :: "val \<Rightarrow> error + nat" where
  "py_len (VList l) = Inr (length l)"
| "py_len (VStr s) = Inr (length s)"
| "py_len (VBytes b) = Inr (length b)"
| "py_len v = Inl TypeError"

text \<open>The handler \<open>except ValidationError as e: e.args = (s + e.args[0],) + e.args[1:]; raise\<close>:
  a \<open>ValidationError\<close> gets \<open>s\<close> in front of its message, anything else passes.\<close>

fun prepend :: "string \<Rightarrow> error + 'a \<Rightarrow> error + 'a" where
  "prepend s (Inl (ValidationError msg)) = Inl (ValidationError (s @ msg))"
| "prepend s r = r"

text \<open>A loop whose body may raise: it stops at the first exception.\<close>

fun for_each :: "('a \<Rightarrow> error + unit) \<Rightarrow> 'a list \<Rightarrow> error + unit" where
  "for_each body [] = Inr ()"
| "for_each body (x # xs) =
     (case body x of Inl e \<Rightarrow> Inl e | Inr u \<Rightarrow> for_each body xs)"

definition check_optional :: "field \<Rightarrow> val \<Rightarrow> error + unit" where
  "check_optional self v =
     (if \<not> optional self \<and> v = VNone then Inl (ValidationError ''cannot be None'')
      else Inr ())"

text \<open>\<open>check\<close>: \<open>String.check\<close>, \<open>List.check\<close>, and \<open>Field.check\<close> (which passes) for the
  other classes.\<close>

fun check :: "field \<Rightarrow> val \<Rightarrow> error + unit" where
  "check (StringField opt d max_len) v =
     (case max_len of
        None \<Rightarrow> Inr ()
      | Some m \<Rightarrow>
          (case py_len v of
             Inl e \<Rightarrow> Inl e
           | Inr n \<Rightarrow> if m < int n then Inl (ValidationError ''too long'') else Inr ()))"
| "check (ListField opt d inner) instances =
     (case iterate instances of
        Inl e \<Rightarrow> Inl e
      | Inr l \<Rightarrow> for_each (\<lambda>instance. prepend ''inner element '' (check inner instance)) l)"
| "check self v = Inr ()"

text \<open>\<open>check_type\<close>: \<open>List.check_type\<close>, and \<open>Field.check_type\<close> for the other classes,
  which raises \<open>AttributeError\<close> on an object without \<open>self.type\<close>.\<close>

fun check_type :: "field \<Rightarrow> val \<Rightarrow> error + unit" where
  "check_type (ListField opt d inner) instances =
     (case instances of
        VList l \<Rightarrow>
          for_each (\<lambda>instance. prepend ''inner element '' (check_type inner instance)) l
      | _ \<Rightarrow> Inl (ValidationError
                 (''is of type'' @ class_name instances @ '', expected list'')))"
| "check_type self v =
     (case type_name self of
        None \<Rightarrow> Inl AttributeError
      | Some expected_type \<Rightarrow>
          if class_name v \<noteq> expected_type
          then Inl (ValidationError
                     (''is of type '' @ class_name v @ '', expected '' @ expected_type))
          else Inr ())"

text \<open>\<open>getattr(value, key)\<close>\<close>

fun getattr :: "val \<Rightarrow> string \<Rightarrow> error + val" where
  "getattr (VInst name dict) key =
     (case fmlookup dict key of None \<Rightarrow> Inl AttributeError | Some v \<Rightarrow> Inr v)"
| "getattr v key = Inl AttributeError"

subsection \<open>The constructor\<close>

text \<open>
  \<open>Field.__init__\<close> writes a notice to \<open>sys.stderr\<close> and raises. The statements after the
  \<open>raise\<close> are never executed: the counter \<open>_order\<close>, the class \<open>FieldInstance\<close> with its
  \<open>__init__\<close>, \<open>__setattr__\<close> and \<open>__eq__\<close>, \<open>self.type\<close>, the instance method \<open>make\<close> and the
  options \<open>default\<close> and \<open>optional\<close>. They are no part of the model. A call of a constructor
  never returns; it is modelled by the exception that leaves it and the state of the new
  object at that moment: what the call has written to \<open>sys.stderr\<close> and the attributes it has
  set on the object.
\<close>

datatype arg = AVal val | AField field

datatype call_state =
  Call_state (written: string) (attributes: "(string \<times> arg) list")

definition new_object :: call_state where
  "new_object = Call_state [] []"

definition notice :: string where
  "notice = ''Use of encodium.Field is Deprecated.'' @ [CHR 0x0A]
     @ ''This change will break backwards compatibility'' @ [CHR 0x0A]
     @ ''For a quickfix, change:'' @ [CHR 0x0A]
     @ ''    from encodium import ___'' @ [CHR 0x0A]
     @ ''to'' @ [CHR 0x0A]
     @ ''    from encodium.deprecated import ___'' @ [CHR 0x0A]"

definition Field_init :: "call_state \<Rightarrow> (string \<times> arg) list \<Rightarrow> call_state \<times> error" where
  "Field_init self kwargs =
     (Call_state (written self @ notice) (attributes self), Exception ''Upgrade Encodium'')"

text \<open>\<open>List.__init__(self, inner_field, *args, **kwargs)\<close> sets \<open>self.inner_field\<close> and calls
  \<open>super().__init__(*args, **kwargs)\<close>, which takes no positional argument.\<close>

definition List_init ::
  "call_state \<Rightarrow> arg \<Rightarrow> arg list \<Rightarrow> (string \<times> arg) list \<Rightarrow> call_state \<times> error" where
  "List_init self inner args kwargs =
     (let self' = Call_state (written self) (attributes self @ [(''inner_field'', inner)])
      in if args \<noteq> [] then (self', TypeError) else Field_init self' kwargs)"

text \<open>The classes: \<open>Field\<close>, its built-in subclasses, and a subclass that defines no
  \<open>__init__\<close> of its own (a record class).\<close>

datatype cls =
    Field_class
  | String_class
  | Integer_class
  | List_class
  | Boolean_class
  | Bytes_class
  | Subclass string

text \<open>The call \<open>cls(*args, **kwargs)\<close>: a new object, then \<open>__init__\<close>; arguments that do not
  fit the signature of \<open>__init__\<close> raise \<open>TypeError\<close> before its body runs.\<close>

fun instantiate :: "cls \<Rightarrow> arg list \<Rightarrow> (string \<times> arg) list \<Rightarrow> call_state \<times> error" where
  "instantiate List_class args kwargs =
     (case args of
        inner # rest \<Rightarrow>
          if map_of kwargs ''inner_field'' \<noteq> None then (new_object, TypeError)
          else List_init new_object inner rest kwargs
      | [] \<Rightarrow>
          (case map_of kwargs ''inner_field'' of
             None \<Rightarrow> (new_object, TypeError)
           | Some inner \<Rightarrow>
               List_init new_object inner []
                 (filter (\<lambda>(key, v). key \<noteq> ''inner_field'') kwargs)))"
| "instantiate c args kwargs =
     (if args \<noteq> [] then (new_object, TypeError) else Field_init new_object kwargs)"

text \<open>The classmethod \<open>make\<close>: \<open>cls().make(*args, **kwargs)\<close>. The call \<open>cls()\<close> does not
  return, so the attribute \<open>make\<close> of its result is never looked up.\<close>

definition Field_make :: "cls \<Rightarrow> arg list \<Rightarrow> (string \<times> arg) list \<Rightarrow> call_state \<times> error" where
  "Field_make c args kwargs = instantiate c [] []"

text \<open>The class of a field object.\<close>

fun class_of :: "field \<Rightarrow> cls" where
  "class_of (StringField opt d m) = String_class"
| "class_of (IntegerField opt d s) = Integer_class"
| "class_of (ListField opt d f) = List_class"
| "class_of (BooleanField opt d) = Boolean_class"
| "class_of (BytesField opt d) = Bytes_class"
| "class_of (RecordField opt d name fs) = Subclass name"

subsection \<open>UTF-8\<close>

text \<open>
  \<open>str.encode('utf-8')\<close> and \<open>bytes.decode('utf-8')\<close>, both with the default error handler
  \<open>strict\<close>. A \<open>str\<close> holds code points below \<open>0x110000\<close>; a surrogate (\<open>0xd800\<close> to
  \<open>0xdfff\<close>) makes the encoder raise \<open>UnicodeEncodeError\<close>, and a number that is no code
  point is refused in the same way. The decoder accepts the well-formed sequences only: no
  overlong form, no surrogate, nothing above \<open>0x10ffff\<close>.
\<close>

definition cont :: "nat \<Rightarrow> byte" where
  "cont n = of_nat (0x80 + n mod 64)"

definition encode_cp :: "nat \<Rightarrow> error + bytes" where
  "encode_cp c =
     (if c < 0x80 then Inr [of_nat c]
      else if c < 0x800 then Inr [of_nat (0xc0 + c div 64), cont c]
      else if 0xd800 \<le> c \<and> c \<le> 0xdfff then Inl UnicodeEncodeError
      else if c < 0x10000 then Inr [of_nat (0xe0 + c div 4096), cont (c div 64), cont c]
      else if c < 0x110000
        then Inr [of_nat (0xf0 + c div 262144), cont (c div 4096), cont (c div 64), cont c]
      else Inl UnicodeEncodeError)"

fun utf8_encode :: "nat list \<Rightarrow> error + bytes" where
  "utf8_encode [] = Inr []"
| "utf8_encode (c # cs) =
     (case encode_cp c of
        Inl e \<Rightarrow> Inl e
      | Inr bs \<Rightarrow> (case utf8_encode cs of Inl e \<Rightarrow> Inl e | Inr rest \<Rightarrow> Inr (bs @ rest)))"

definition is_cont :: "byte \<Rightarrow> bool" where
  "is_cont b = (0x80 \<le> unat b \<and> unat b \<le> 0xbf)"

definition cont_bits :: "byte \<Rightarrow> nat" where
  "cont_bits b = unat b - 0x80"

text \<open>The first code point of a byte string and the number of bytes it takes.\<close>

definition decode_cp :: "bytes \<Rightarrow> error + nat \<times> nat" where
  "decode_cp bs =
     (case bs of
        [] \<Rightarrow> Inl UnicodeDecodeError
      | b0 # r0 \<Rightarrow>
          if unat b0 < 0x80 then Inr (unat b0, 1)
          else if 0xc0 \<le> unat b0 \<and> unat b0 \<le> 0xdf then
            (case r0 of
               b1 # r1 \<Rightarrow>
                 (let c = (unat b0 - 0xc0) * 64 + cont_bits b1 in
                  if is_cont b1 \<and> 0x80 \<le> c then Inr (c, 2) else Inl UnicodeDecodeError)
             | _ \<Rightarrow> Inl UnicodeDecodeError)
          else if 0xe0 \<le> unat b0 \<and> unat b0 \<le> 0xef then
            (case r0 of
               b1 # b2 # r2 \<Rightarrow>
                 (let c = (unat b0 - 0xe0) * 4096 + cont_bits b1 * 64 + cont_bits b2 in
                  if is_cont b1 \<and> is_cont b2 \<and> 0x800 \<le> c
                     \<and> \<not> (0xd800 \<le> c \<and> c \<le> 0xdfff)
                  then Inr (c, 3) else Inl UnicodeDecodeError)
             | _ \<Rightarrow> Inl UnicodeDecodeError)
          else if 0xf0 \<le> unat b0 \<and> unat b0 \<le> 0xf4 then
            (case r0 of
               b1 # b2 # b3 # r3 \<Rightarrow>
                 (let c = (unat b0 - 0xf0) * 262144 + cont_bits b1 * 4096
                          + cont_bits b2 * 64 + cont_bits b3 in
                  if is_cont b1 \<and> is_cont b2 \<and> is_cont b3 \<and> 0x10000 \<le> c \<and> c < 0x110000
                  then Inr (c, 4) else Inl UnicodeDecodeError)
             | _ \<Rightarrow> Inl UnicodeDecodeError)
          else Inl UnicodeDecodeError)"

lemma decode_cp_size: "decode_cp bs = Inr (c, k) \<Longrightarrow> 1 \<le> k \<and> k \<le> length bs"
  by (auto simp: decode_cp_def Let_def split: list.splits if_splits)

function utf8_decode :: "bytes \<Rightarrow> error + nat list" where
  "utf8_decode bs =
     (if bs = [] then Inr []
      else (case decode_cp bs of
              Inl e \<Rightarrow> Inl e
            | Inr (c, k) \<Rightarrow>
                (case utf8_decode (drop k bs) of Inl e \<Rightarrow> Inl e | Inr cs \<Rightarrow> Inr (c # cs))))"
  by pat_completeness auto
termination
proof (relation "measure length")
  show "wf (measure length)" by simp
next
  fix bs :: bytes and x2 x y
  assume "bs \<noteq> []" "decode_cp bs = Inr x2" "(x, y) = x2"
  then have "1 \<le> y" using decode_cp_size [of bs x y] by simp
  with \<open>bs \<noteq> []\<close> show "(drop y bs, bs) \<in> measure length" by (cases bs) auto
qed

declare utf8_decode.simps [simp del]

subsection \<open>The type plugins and the wire codec\<close>

text \<open>Truth value of a value, as \<open>b'\\x01' if b else b'\\x00'\<close> tests it.\<close>

fun truthy :: "val \<Rightarrow> bool" where
  "truthy VNone = False"
| "truthy (VBool b) = b"
| "truthy (VInt i) = (i \<noteq> 0)"
| "truthy (VStr s) = (s \<noteq> [])"
| "truthy (VBytes b) = (b \<noteq> [])"
| "truthy (VList l) = (l \<noteq> [])"
| "truthy (VInst name dict) = True"

text \<open>\<open>Integer.serialize\<close> on an \<open>int\<close> and \<open>Integer.deserialize\<close>.\<close>

definition Integer_serialize :: "bool \<Rightarrow> int \<Rightarrow> error + bytes" where
  "Integer_serialize sig i =
     (let bits = bit_length i;
          bits = (if sig \<and> 0 < i \<and> bits mod 8 = 0 then bits + 1 else bits)
      in to_bytes i (max (drop_bit 3 (bits + 7)) 1) sig)"

definition Integer_deserialize :: "bool \<Rightarrow> bytes \<Rightarrow> int" where
  "Integer_deserialize sig data = from_bytes data sig"

text \<open>The body of the loops of \<open>Field.serialize\<close> and \<open>List.serialize\<close> for one attribute,
  given the payload \<open>field.serialize(attr)\<close>: the chunk appended to \<open>array\<close>.\<close>

definition chunk :: "val \<Rightarrow> error + bytes \<Rightarrow> error + bytes" where
  "chunk attr payload =
     (if attr = VNone then Inr [0x00]
      else (case payload of
              Inl e \<Rightarrow> Inl e
            | Inr data \<Rightarrow>
                (case encode_length (length data) of
                   Inl e \<Rightarrow> Inl e
                 | Inr encoded \<Rightarrow> Inr (encoded @ data))))"

text \<open>A loop that appends to \<open>array\<close> and stops at the first exception.\<close>

fun collect :: "('a \<Rightarrow> error + 'b) \<Rightarrow> 'a list \<Rightarrow> error + 'b list" where
  "collect body [] = Inr []"
| "collect body (x # xs) =
     (case body x of
        Inl e \<Rightarrow> Inl e
      | Inr y \<Rightarrow> (case collect body xs of Inl e \<Rightarrow> Inl e | Inr ys \<Rightarrow> Inr (y # ys)))"

lemma collect_cong [fundef_cong]:
  "xs = ys \<Longrightarrow> (\<And>x. x \<in> set ys \<Longrightarrow> f x = g x) \<Longrightarrow> collect f xs = collect g ys"
  by (induction ys arbitrary: xs) (auto split: sum.splits)

text \<open>
  \<open>serialize\<close>: \<open>String.serialize\<close>, \<open>Integer.serialize\<close>, \<open>List.serialize\<close>,
  \<open>Boolean.serialize\<close>, \<open>Bytes.serialize\<close> and, for a record class, \<open>Field.serialize\<close>. A
  value without the attribute or operation a plugin uses raises \<open>AttributeError\<close> or
  \<open>TypeError\<close>; \<open>bool\<close> is a subclass of \<open>int\<close>.
\<close>

fun serialize :: "field \<Rightarrow> val \<Rightarrow> error + bytes" where
  "serialize (StringField opt d m) s =
     (case s of
        VStr cs \<Rightarrow> (case utf8_encode cs of Inl e \<Rightarrow> Inl e | Inr bs \<Rightarrow> Inr (0x01 # bs))
      | _ \<Rightarrow> Inl AttributeError)"
| "serialize (IntegerField opt d sig) i =
     (case i of
        VInt n \<Rightarrow> Integer_serialize sig n
      | VBool b \<Rightarrow> Integer_serialize sig (if b then 1 else 0)
      | _ \<Rightarrow> Inl AttributeError)"
| "serialize (BooleanField opt d) b = Inr (if truthy b then [0x01] else [0x00])"
| "serialize (BytesField opt d) b =
     (case b of VBytes bs \<Rightarrow> Inr (0x01 # bs) | _ \<Rightarrow> Inl TypeError)"
| "serialize (ListField opt d inner) l =
     (case iterate l of
        Inl e \<Rightarrow> Inl e
      | Inr attrs \<Rightarrow>
          (case collect (\<lambda>attr. chunk attr (serialize inner attr)) attrs of
             Inl e \<Rightarrow> Inl e
           | Inr array \<Rightarrow> Inr (0x01 # concat array)))"
| "serialize (RecordField opt d name fs) v =
     (case fs of
        None \<Rightarrow> Inl (NotImplementedError (name @ '' has no fields''))
      | Some fields \<Rightarrow>
          (case collect (\<lambda>(key, field).
                    case getattr v key of
                      Inl e \<Rightarrow> Inl e
                    | Inr attr \<Rightarrow> chunk attr (serialize field attr)) fields of
             Inl e \<Rightarrow> Inl e
           | Inr array \<Rightarrow> Inr (0x01 # concat array)))"

text \<open>The loop \<open>while i < len(data)\<close> of \<open>Field.deserialize\<close> and \<open>List.deserialize\<close>: the
  slices it takes, from index \<open>i\<close> on.\<close>

lemma decode_length_advance: "decode_length data i = (len, ll) \<Longrightarrow> 1 \<le> ll"
  by (auto simp: decode_length_def Let_def split: if_splits)

function chunks :: "bytes \<Rightarrow> nat \<Rightarrow> bytes list" where
  "chunks data i =
     (if i < length data then
        (case decode_length data i of
           (len, length_length) \<Rightarrow>
             slice data (i + length_length) (i + length_length + len)
             # chunks data (i + length_length + len))
      else [])"
  by pat_completeness auto
termination
  by (relation "measure (\<lambda>(data, i). length data - i)")
     (auto dest!: decode_length_advance [OF sym])

declare chunks.simps [simp del]

text \<open>
  \<open>deserialize\<close>: the plugins' \<open>deserialize\<close> and, for a record class, \<open>Field.deserialize\<close>,
  which ends with \<open>self.make(**kwargs)\<close>: the classmethod, the only \<open>make\<close> there is, whose
  exception is the result (the notice it writes to \<open>sys.stderr\<close> is left out here). The
  test \<open>item is b''\<close> holds for every empty slice, the empty \<open>bytes\<close> object being unique.
\<close>

lemma field_size_in_fields:
  "(key, field) \<in> set fields
   \<Longrightarrow> size field < Suc (size_list (\<lambda>x. Suc (size (snd x))) fields)"
  by (induction fields) auto

lemma field_size_in_zip [termination_simp]:
  "((key, field), item) \<in> set (zip fields array)
   \<Longrightarrow> size field < Suc (size_list (\<lambda>x. Suc (size (snd x))) fields)"
  by (auto dest!: set_zip_leftD intro: field_size_in_fields)

fun deserialize :: "field \<Rightarrow> bytes \<Rightarrow> error + val" where
  "deserialize (StringField opt d m) data =
     (case utf8_decode (drop 1 data) of Inl e \<Rightarrow> Inl e | Inr cs \<Rightarrow> Inr (VStr cs))"
| "deserialize (IntegerField opt d sig) data = Inr (VInt (Integer_deserialize sig data))"
| "deserialize (BooleanField opt d) data = Inr (VBool (data = [0x01]))"
| "deserialize (BytesField opt d) data = Inr (VBytes (drop 1 data))"
| "deserialize (ListField opt d inner) data =
     (case collect (deserialize inner) (chunks data 1) of
        Inl e \<Rightarrow> Inl e
      | Inr array \<Rightarrow> Inr (VList array))"
| "deserialize (RecordField opt d name fs) data =
     (let array = chunks data 1 in
      case fs of
        None \<Rightarrow> Inl (NotImplementedError (name @ '' has no fields''))
      | Some fields \<Rightarrow>
          (case collect (\<lambda>((key, field), item).
                    if item = [] then Inr (key, VNone)
                    else (case deserialize field item of
                            Inl e \<Rightarrow> Inl e
                          | Inr v \<Rightarrow> Inr (key, v))) (zip fields array) of
             Inl e \<Rightarrow> Inl e
           | Inr kwargs \<Rightarrow>
               Inl (snd (Field_make (Subclass name) []
                           (map (\<lambda>(key, v). (key, AVal v)) kwargs)))))"

text \<open>The dictionary \<open>kwargs\<close> that \<open>Field.deserialize\<close> has built when it reaches the call
  \<open>self.make(**kwargs)\<close>, or the exception raised before.\<close>

definition deserialize_kwargs :: "field \<Rightarrow> bytes \<Rightarrow> error + (string \<times> val) list" where
  "deserialize_kwargs self data =
     (let array = chunks data 1 in
      case get_fields self of
        Inl e \<Rightarrow> Inl e
      | Inr fields \<Rightarrow>
          collect (\<lambda>((key, field), item).
                    if item = [] then Inr (key, VNone)
                    else (case deserialize field item of
                            Inl e \<Rightarrow> Inl e
                          | Inr v \<Rightarrow> Inr (key, v))) (zip fields array))"

subsection \<open>Values that pass the checks\<close>





text \<open>\<open>framed c body\<close>: the bytes \<open>c\<close> are a length prefix followed by \<open>body\<close>, and the
  decoder, wherever \<open>c\<close> starts, finds the length of \<open>body\<close> and the size of the prefix.\<close>

definition framed :: "bytes \<Rightarrow> bytes \<Rightarrow> bool" where
  "framed c body =
     (\<exists>hdr. c = hdr @ body \<and> hdr \<noteq> []
        \<and> (\<forall>pre rest. decode_length (pre @ c @ rest) (length pre) = (length body, length hdr)))"

subsection \<open>Example record classes\<close>

text \<open>
  The class \<open>Person\<close> of the module's documentation, written with the \<open>Field\<close> API (fields
  \<open>age\<close>, \<open>name\<close> with \<open>max_length=50\<close>, \<open>diabetic\<close>), and an object with the attributes
  \<open>age=25\<close>, \<open>name='John'\<close>, \<open>diabetic=False\<close>; a class \<open>Blob\<close> with an optional \<open>Bytes\<close> field
  \<open>data\<close> and an optional \<open>String\<close> field \<open>text\<close>, and objects with these two attributes; a
  class \<open>Numbers\<close> with a required field \<open>values\<close>, a list of integers.
\<close>

definition Person :: field where
  "Person = RecordField False (Value VNone) ''Person''
     (Some [(''age'', IntegerField False (Value VNone) True),
            (''name'', StringField False (Value VNone) (Some 50)),
            (''diabetic'', BooleanField False (Value (VBool True)))])"


definition Blob :: field where
  "Blob = RecordField False (Value VNone) ''Blob''
     (Some [(''data'', BytesField True (Value VNone)),
            (''text'', StringField True (Value VNone) None)])"

definition blob :: "val \<Rightarrow> val \<Rightarrow> val" where
  "blob data text = VInst ''BlobValues'' (fmupd ''text'' text (fmupd ''data'' data fmempty))"

definition Numbers :: field where
  "Numbers = RecordField False (Value VNone) ''Numbers''
     (Some [(''values'', ListField False (Value VNone) (IntegerField False (Value VNone) True))])"

section \<open>Properties\<close>

subsection \<open>The length codec\<close>

lemma bit_length_nat_le: "bit_length_nat n \<le> k \<longleftrightarrow> n < 2 ^ k"
proof (induction n arbitrary: k rule: bit_length_nat.induct)
  case (1 n)
  show ?case
  proof (cases "n = 0")
    case True
    then show ?thesis by (simp add: bit_length_nat.simps)
  next
    case False
    show ?thesis
    proof (cases k)
      case 0
      with False show ?thesis by (simp add: bit_length_nat.simps)
    next
      case (Suc j)
      have "bit_length_nat n \<le> Suc j \<longleftrightarrow> bit_length_nat (n div 2) \<le> j"
        using False by (simp add: bit_length_nat.simps)
      also have "\<dots> \<longleftrightarrow> n div 2 < 2 ^ j" using 1 False by simp
      also have "\<dots> \<longleftrightarrow> n < 2 ^ Suc j" by auto
      finally show ?thesis using Suc by simp
    qed
  qed
qed

lemma byte_count_le: "byte_count n \<le> k \<longleftrightarrow> n < 256 ^ k"
proof -
  have "byte_count n \<le> k \<longleftrightarrow> bit_length_nat n \<le> 8 * k"
    by (auto simp: byte_count_def drop_bit_eq_div)
  also have "\<dots> \<longleftrightarrow> n < 2 ^ (8 * k)" by (rule bit_length_nat_le)
  also have "(2::nat) ^ (8 * k) = 256 ^ k" by (simp add: power_mult)
  finally show ?thesis .
qed

lemma byte_count_Least: "byte_count n = (LEAST k. n < 256 ^ k)"
proof (rule sym, rule Least_equality)
  show "n < 256 ^ byte_count n" using byte_count_le [of n "byte_count n"] by simp
next
  fix k assume "n < 256 ^ k"
  then show "byte_count n \<le> k" by (simp add: byte_count_le)
qed

lemma length_be_bytes [simp]: "length (be_bytes k n) = k"
  by (induction k arbitrary: n) auto

lemma from_be_snoc: "from_be (bs @ [b]) = from_be bs * 256 + unat b"
  by (simp add: from_be_def)

lemma from_be_be_bytes: "n < 256 ^ k \<Longrightarrow> from_be (be_bytes k n) = n"
proof (induction k arbitrary: n)
  case 0
  then show ?case by (simp add: from_be_def)
next
  case (Suc k)
  then have "n div 256 < 256 ^ k" by (simp add: less_mult_imp_div_less)
  with Suc.IH have "from_be (be_bytes k (n div 256)) = n div 256" by simp
  moreover have "unat (of_nat (n mod 256) :: byte) = n mod 256"
    by (simp add: unat_of_nat)
  ultimately show ?case by (simp add: from_be_snoc)
qed

lemma bit_length_int [simp]: "bit_length (int n) = bit_length_nat n"
  by (simp add: bit_length_def)

lemma less_256_pow_byte_count: "n < 256 ^ byte_count n"
  using byte_count_le [of n "byte_count n"] by simp

lemma to_bytes_byte_count:
  "to_bytes (int n) (byte_count n) False = Inr (be_bytes (byte_count n) n)"
proof -
  have "int n < int (256 ^ byte_count n)"
    using less_256_pow_byte_count [of n] by (simp only: of_nat_less_iff)
  then have "int n < 2 ^ (8 * byte_count n)" by (simp add: power_mult)
  then show ?thesis by (simp add: to_bytes_def)
qed

lemma encode_length_eq:
  "encode_length n =
     (if n < 0xfa then Inr (be_bytes (byte_count n) n)
      else if 6 < byte_count n then Inl (ValidationError ''length too big'')
      else Inr (of_nat (byte_count n + 0xf9) # be_bytes (byte_count n) n))"
  using to_bytes_byte_count [of n]
  by (simp add: encode_length_def byte_count_def Let_def)

lemma byte_count_gt6: "6 < byte_count n \<longleftrightarrow> 2 ^ 48 \<le> n"
proof -
  have "byte_count n \<le> 6 \<longleftrightarrow> n < 256 ^ 6" by (rule byte_count_le)
  also have "(256::nat) ^ 6 = 2 ^ 48" by simp
  finally show ?thesis by auto
qed

lemma byte_count_small: "1 \<le> n \<Longrightarrow> n < 256 \<Longrightarrow> byte_count n = 1"
proof -
  assume a: "1 \<le> n" "n < 256"
  have "byte_count n \<le> 1" using a by (simp add: byte_count_le)
  moreover have "(byte_count n \<le> 0) = (n < 256 ^ 0)" by (rule byte_count_le)
  ultimately show ?thesis using a by simp
qed

lemma byte_count_0 [simp]: "byte_count 0 = 0"
  using byte_count_le [of 0 0] by simp

lemma byte_count_pos: "1 \<le> n \<Longrightarrow> 1 \<le> byte_count n"
  using byte_count_le [of n 0] by simp

lemma be_bytes_1: "n < 256 \<Longrightarrow> be_bytes (Suc 0) n = [of_nat n]"
  by simp

lemma from_bytes_unsigned [simp]: "from_bytes bs False = int (from_be bs)"
  by (simp add: from_bytes_def)

lemma slice_first: "p \<noteq> [] \<Longrightarrow> slice (pre @ p @ rest) (length pre) (length pre + 1) = [hd p]"
  by (cases p) (simp_all add: slice_def)

lemma slice_tail:
  "slice (pre @ (b # q) @ rest) (length pre + 1) (length pre + 1 + length q) = q"
  by (simp add: slice_def)

lemma from_be_single [simp]: "from_be [b] = unat b"
  by (simp add: from_be_def)

lemma decode_length_alt:
  "decode_length data i =
     (let len = from_be (slice data i (i + 1)) in
      if 0xfa \<le> len
      then (from_be (slice data (i + 1) (i + 1 + (len - 0xf9))), 1 + (len - 0xf9))
      else (len, 1))"
  by (simp add: decode_length_def Let_def)

lemma decode_length_short:
  assumes "1 \<le> n" "n < 0xfa"
  shows "decode_length (pre @ [of_nat n] @ rest) (length pre) = (n, 1)"
proof -
  have u: "unat (of_nat n :: byte) = n" using assms by (simp add: unat_of_nat)
  have "slice (pre @ [of_nat n :: byte] @ rest) (length pre) (length pre + 1) = [of_nat n]"
    using slice_first [of "[of_nat n :: byte]" pre rest] by simp
  then show ?thesis using assms u by (simp add: decode_length_alt Let_def)
qed

lemma decode_length_long:
  assumes "n < 256 ^ k" "1 \<le> k" "k \<le> 6"
  shows "decode_length (pre @ (of_nat (k + 0xf9) # be_bytes k n) @ rest) (length pre)
           = (n, 1 + k)"
proof -
  let ?b = "of_nat (k + 0xf9) :: byte"
  have "unat ?b = (k + 0xf9) mod 2 ^ LENGTH(8)" by (simp only: unat_of_nat)
  then have u: "unat ?b = k + 0xf9" using assms by simp
  have s1: "slice (pre @ (?b # be_bytes k n) @ rest) (length pre) (length pre + 1) = [?b]"
    using slice_first [of "?b # be_bytes k n" pre rest] by simp
  have s2: "slice (pre @ (?b # be_bytes k n) @ rest) (length pre + 1) (length pre + 1 + k)
              = be_bytes k n"
    using slice_tail [of pre ?b "be_bytes k n" rest] by simp
  have v: "from_be (be_bytes k n) = n" using assms by (simp add: from_be_be_bytes)
  have f: "from_be (slice (pre @ (?b # be_bytes k n) @ rest) (length pre) (length pre + 1))
             = k + 0xf9"
    unfolding s1 using u by simp
  show ?thesis
    unfolding decode_length_alt Let_def f using s2 v assms(2) by simp
qed

lemma decode_encode_length:
  assumes "1 \<le> n" "encode_length n = Inr p"
  shows "decode_length (pre @ p @ rest) (length pre) = (n, length p)"
proof (cases "n < 0xfa")
  case True
  then have "byte_count n = 1" using assms(1) by (simp add: byte_count_small)
  with True assms have "p = [of_nat n]" by (simp add: encode_length_eq)
  then show ?thesis using decode_length_short [OF assms(1) True] by simp
next
  case False
  with assms have k6: "byte_count n \<le> 6"
    and p: "p = of_nat (byte_count n + 0xf9) # be_bytes (byte_count n) n"
    by (auto simp: encode_length_eq split: if_splits)
  have "1 \<le> byte_count n" using assms(1) by (rule byte_count_pos)
  from decode_length_long [OF less_256_pow_byte_count this k6]
  show ?thesis using p by simp
qed

lemma enc300: "encode_length 300 = Inr [0xFB, 0x01, 0x2C]"
  by code_simp
lemma enc5: "encode_length 5 = Inr [0x05]"
  by code_simp
lemma enc0: "encode_length 0 = Inr []"
  by code_simp
lemma enc248: "encode_length (2 ^ 48) = Inl (ValidationError ''length too big'')"
  by (simp add: encode_length_eq byte_count_gt6)

subsection \<open>The integer plugin\<close>




lemma to_bytes_length: "to_bytes i n s = Inr bs \<Longrightarrow> length bs = n"
  by (auto simp: to_bytes_def split: if_splits)



lemma Integer_serialize_length:
  "Integer_serialize s i = Inr bs \<Longrightarrow> 1 \<le> length bs"
  by (auto simp: Integer_serialize_def Let_def dest!: to_bytes_length)


lemma Integer_serialize_m129: "Integer_serialize True (- 129) = Inl OverflowError"
  by code_simp

lemma Integer_serialize_128: "Integer_serialize True 128 = Inr [0x00, 0x80]"
  by code_simp

subsection \<open>UTF-8\<close>

lemma unat_byte: "x < 256 \<Longrightarrow> unat (of_nat x :: byte) = x"
  by (simp add: unat_of_nat)

lemma unat_cont: "unat (cont n) = 0x80 + n mod 64"
proof -
  have "0x80 + n mod 64 < 256"
  proof -
    have "n mod 64 < 64" by simp
    then show ?thesis by linarith
  qed
  then show ?thesis unfolding cont_def by (rule unat_byte)
qed

lemma is_cont_cont [simp]: "is_cont (cont n)"
proof -
  have "n mod 64 < 64" by simp
  then show ?thesis unfolding is_cont_def unat_cont by linarith
qed













subsection \<open>The wire codec\<close>

lemma framed_absent: "framed [0x00] []"
proof -
  have "decode_length (pre @ [0x00] @ rest) (length pre) = (0, 1)" for pre rest :: bytes
    using slice_first [of "[0x00 :: byte]" pre rest]
    by (simp add: decode_length_alt Let_def)
  then show ?thesis unfolding framed_def by (intro exI [of _ "[0x00]"]) simp
qed

lemma encode_length_nonempty:
  assumes "1 \<le> n" "encode_length n = Inr enc"
  shows "enc \<noteq> []"
proof -
  have "length enc = byte_count n \<or> length enc = Suc (byte_count n)"
    using assms(2) by (auto simp: encode_length_eq split: if_splits)
  then have "1 \<le> length enc" using byte_count_pos [OF assms(1)] by auto
  then show ?thesis by auto
qed

lemma framed_payload:
  assumes "data \<noteq> []" "encode_length (length data) = Inr enc"
  shows "framed (enc @ data) data"
proof -
  have n: "1 \<le> length data" using assms(1) by (cases data) auto
  have "decode_length (pre @ (enc @ data) @ rest) (length pre) = (length data, length enc)"
    for pre rest
    using decode_encode_length [OF n assms(2), of pre "data @ rest"] by simp
  moreover have "enc \<noteq> []" using n assms(2) by (rule encode_length_nonempty)
  ultimately show ?thesis unfolding framed_def by blast
qed

lemma chunks_end [simp]: "chunks data (length data) = []"
  by (simp add: chunks.simps)

lemma chunks_framed_step:
  assumes "framed c body"
  shows "chunks (pre @ c @ rest) (length pre) = body # chunks ((pre @ c) @ rest) (length (pre @ c))"
proof -
  from assms obtain hdr where c: "c = hdr @ body" and ne: "hdr \<noteq> []"
    and d: "decode_length (pre @ c @ rest) (length pre) = (length body, length hdr)"
    unfolding framed_def by blast
  have lt: "length pre < length (pre @ c @ rest)" using c ne by (cases hdr) auto
  have s: "slice (pre @ c @ rest) (length pre + length hdr)
             (length pre + length hdr + length body) = body"
    unfolding c by (simp add: slice_def)
  have l: "length pre + length hdr + length body = length (pre @ c)" unfolding c by simp
  have "chunks (pre @ c @ rest) (length pre)
      = (case decode_length (pre @ c @ rest) (length pre) of
           (len, ll) \<Rightarrow>
             slice (pre @ c @ rest) (length pre + ll) (length pre + ll + len)
             # chunks (pre @ c @ rest) (length pre + ll + len))"
    using lt by (subst chunks.simps) (simp only: if_True)
  also have "\<dots> = slice (pre @ c @ rest) (length pre + length hdr)
                     (length pre + length hdr + length body)
                   # chunks (pre @ c @ rest) (length pre + length hdr + length body)"
    unfolding d by (simp only: prod.case)
  also have "\<dots> = body # chunks ((pre @ c) @ rest) (length (pre @ c))"
    unfolding l s [unfolded l] by (simp only: append_assoc)
  finally show ?thesis .
qed

lemma chunks_framed:
  "list_all2 framed cs bodies \<Longrightarrow> chunks (pre @ concat cs) (length pre) = bodies"
proof (induction cs bodies arbitrary: pre rule: list_all2_induct)
  case Nil
  then show ?case by simp
next
  case (Cons c cs body bodies)
  from chunks_framed_step [OF Cons.hyps(1), of pre "concat cs"] Cons.IH [of "pre @ c"]
  show ?case by simp
qed

lemma chunks_framed_1:
  assumes "list_all2 framed cs bodies"
  shows "chunks (0x01 # concat cs) 1 = bodies"
  using chunks_framed [OF assms, of "[0x01]"] by simp



lemma serialize_nonempty: "serialize f v = Inr bs \<Longrightarrow> bs \<noteq> []"
proof (cases f)
  case (IntegerField opt d sig)
  assume "serialize f v = Inr bs"
  with IntegerField have "\<exists>i. Integer_serialize sig i = Inr bs"
    by (auto split: val.splits)
  then show ?thesis using Integer_serialize_length by fastforce
qed (auto split: val.splits sum.splits option.splits if_splits)

lemma chunk_framed:
  assumes "chunk attr (serialize f attr) = Inr c"
  shows "framed c (if attr = VNone then [] else (case serialize f attr of Inr data \<Rightarrow> data))"
proof (cases "attr = VNone")
  case True
  with assms framed_absent show ?thesis by (auto simp: chunk_def)
next
  case False
  with assms obtain data enc where d: "serialize f attr = Inr data"
    and e: "encode_length (length data) = Inr enc" and c: "c = enc @ data"
    by (auto simp: chunk_def split: sum.splits)
  from d have "data \<noteq> []" by (rule serialize_nonempty)
  from framed_payload [OF this e] show ?thesis using False d c by simp
qed




subsection \<open>Records and examples\<close>



lemma enc1: "encode_length 1 = Inr [0x01]"
  by code_simp

lemma enc1': "encode_length (Suc 0) = Inr [0x01]"
  using enc1 by simp

lemma collect_append:
  "collect g (xs @ ys) =
     (case collect g xs of
        Inl e \<Rightarrow> Inl e
      | Inr as \<Rightarrow> (case collect g ys of Inl e \<Rightarrow> Inl e | Inr bs \<Rightarrow> Inr (as @ bs)))"
  by (induction xs) (auto split: sum.splits)

lemma collect_other_keys:
  assumes "key \<notin> fst ` set fs"
  shows "collect (\<lambda>(k, f). case getattr (VInst n (fmupd key a dict)) k of
                               Inl e \<Rightarrow> Inl e
                             | Inr attr \<Rightarrow> chunk attr (serialize f attr)) fs
       = collect (\<lambda>(k, f). case getattr (VInst n (fmupd key b dict)) k of
                               Inl e \<Rightarrow> Inl e
                             | Inr attr \<Rightarrow> chunk attr (serialize f attr)) fs"
  using assms by (intro collect_cong) (auto simp: rev_image_eqI)

lemma empty_chunks:
  assumes "field = BytesField True dflt \<and> e = VBytes []
           \<or> field = StringField True dflt m \<and> e = VStr []"
  shows "chunk e (serialize field e) = Inr [0x01, 0x01]"
    and "chunk VNone (serialize field VNone) = Inr [0x00]"
    and "deserialize field [0x01] = Inr e"
  using assms by (auto simp: chunk_def enc1' utf8_decode.simps)

subsection \<open>Validation errors\<close>

lemma prepend_VE:
  "prepend s r = Inl (ValidationError msg) \<Longrightarrow> \<exists>m. r = Inl (ValidationError m) \<and> msg = s @ m"
  by (cases "(s, r)" rule: prepend.cases) auto

lemma prepend_Inr [simp]: "prepend s (Inr u) = Inr u"
  by simp

lemma for_each_VE:
  "for_each (\<lambda>x. prepend s (g x)) l = Inl (ValidationError msg)
   \<Longrightarrow> \<exists>x \<in> set l. \<exists>m. g x = Inl (ValidationError m) \<and> msg = s @ m"
proof (induction l)
  case Nil
  then show ?case by simp
next
  case (Cons a l)
  show ?case
  proof (cases "prepend s (g a)")
    case (Inl e)
    with Cons.prems have "prepend s (g a) = Inl (ValidationError msg)" by simp
    from prepend_VE [OF this] show ?thesis by auto
  next
    case (Inr u)
    with Cons.prems have "for_each (\<lambda>x. prepend s (g x)) l = Inl (ValidationError msg)" by simp
    from Cons.IH [OF this] show ?thesis by auto
  qed
qed

subsection \<open>Pairing chunks with fields\<close>






lemma chunks_1110: "chunks [0x01, 0x01, 0x01, 0x00] (Suc 0) = [[0x01], []]"
  by (simp add: chunks.simps decode_length_alt slice_def Let_def)

lemma chunks_100: "chunks [0x01, 0x00, 0x00] (Suc 0) = [[], []]"
  by (simp add: chunks.simps decode_length_alt slice_def Let_def)

lemma chunks_10: "chunks [0x01, 0x00] (Suc 0) = [[]]"
  by (simp add: chunks.simps decode_length_alt slice_def Let_def)

subsection \<open>What deserializing a record does\<close>

lemma make_raises [simp]:
  "snd (Field_make (Subclass name) args kwargs) = Exception ''Upgrade Encodium''"
  by (simp add: Field_make_def Field_init_def)






subsection \<open>Claims about the length codec\<close>

text \<open>
  C6. \<open>encode_length\<close> raises \<open>ValidationError("length too big")\<close> exactly when the length is
  at least \<open>0xfa\<close> and its shortest big-endian representation has more than 6 bytes, which is
  exactly when the length is at least \<open>2 ^ 48\<close>. It raises nothing else, and below that bound
  it returns a prefix of at most one marker byte and 6 length bytes.
\<close>

theorem encode_length_too_big_iff:
  "((encode_length n = Inl (ValidationError ''length too big''))
      = (0xfa \<le> n \<and> 6 < (LEAST k. n < 256 ^ k)))
   \<and> ((0xfa \<le> n \<and> 6 < (LEAST k. n < 256 ^ k)) = (2 ^ 48 \<le> n))
   \<and> (\<forall>e. encode_length n = Inl e \<longrightarrow> e = ValidationError ''length too big'')
   \<and> (n < 2 ^ 48 \<longrightarrow> (\<exists>bs. encode_length n = Inr bs \<and> length bs \<le> 1 + 6))"
proof -
  have big: "2 ^ 48 \<le> n \<Longrightarrow> 0xfa \<le> n"
  proof -
    assume "2 ^ 48 \<le> n"
    moreover have "(0xfa::nat) \<le> 2 ^ 48" by simp
    ultimately show ?thesis by (rule order_trans [rotated])
  qed
  have a: "(encode_length n = Inl (ValidationError ''length too big''))
             = (0xfa \<le> n \<and> 6 < byte_count n)"
    by (auto simp: encode_length_eq)
  have b: "(0xfa \<le> n \<and> 6 < byte_count n) = (2 ^ 48 \<le> n)"
    using big by (auto simp: byte_count_gt6)
  have c: "\<forall>e. encode_length n = Inl e \<longrightarrow> e = ValidationError ''length too big''"
    by (auto simp: encode_length_eq split: if_splits)
  have d: "n < 2 ^ 48 \<longrightarrow> (\<exists>bs. encode_length n = Inr bs \<and> length bs \<le> 1 + 6)"
  proof
    assume "n < 2 ^ 48"
    then have "byte_count n \<le> 6" using byte_count_gt6 [of n] by simp
    then show "\<exists>bs. encode_length n = Inr bs \<and> length bs \<le> 1 + 6"
      by (simp add: encode_length_eq)
  qed
  from a b c d show ?thesis unfolding byte_count_Least by blast
qed

theorem encode_length_too_big_iff_witness:
  "encode_length (2 ^ 48) = Inl (ValidationError ''length too big'')
   \<and> (\<exists>bs. encode_length 300 = Inr bs \<and> length bs \<le> 1 + 6)"
  using encode_length_too_big_iff [of "2 ^ 48"] encode_length_too_big_iff [of 300]
  by simp

text \<open>
  C3, as the code has it. For a length from 1 to \<open>0xf9\<close> the prefix is the single byte equal
  to the length; for a length from \<open>0xfa\<close> up to \<open>2 ^ 48 - 1\<close> it is the byte \<open>0xf9 + k\<close>
  followed by the \<open>k\<close> big-endian bytes of the length, \<open>k\<close> being the least number of bytes
  that hold it. Length 300 gives \<open>fb 01 2c\<close> and length 5 gives \<open>05\<close>. The decoder reads one
  byte and, when it is at least \<open>0xfa\<close>, takes \<open>k\<close> as that byte minus \<open>0xf9\<close> and reads the
  next \<open>k\<close> bytes big-endian; applied where a prefix written for a length of at least 1
  starts, it returns that length and the size of the prefix.
\<close>

theorem length_codec_framing:
  "(1 \<le> n \<and> n \<le> 0xf9 \<longrightarrow> encode_length n = Inr [of_nat n])
   \<and> (0xfa \<le> n \<and> n < 2 ^ 48 \<longrightarrow>
        encode_length n = Inr (of_nat (0xf9 + (LEAST k. n < 256 ^ k))
                               # be_bytes (LEAST k. n < 256 ^ k) n)
        \<and> from_be (be_bytes (LEAST k. n < 256 ^ k) n) = n)
   \<and> encode_length 300 = Inr [0xfb, 0x01, 0x2c]
   \<and> encode_length 5 = Inr [0x05]
   \<and> decode_length (b # bs) 0 =
        (if 0xfa \<le> unat b
         then (from_be (take (unat b - 0xf9) bs), 1 + (unat b - 0xf9))
         else (unat b, 1))
   \<and> (1 \<le> n \<and> encode_length n = Inr p \<longrightarrow>
        decode_length (pre @ p @ rest) (length pre) = (n, length p))"
proof -
  have a: "1 \<le> n \<and> n \<le> 0xf9 \<longrightarrow> encode_length n = Inr [of_nat n]"
  proof
    assume h: "1 \<le> n \<and> n \<le> 0xf9"
    then have "byte_count n = 1" by (simp add: byte_count_small)
    with h show "encode_length n = Inr [of_nat n]" by (simp add: encode_length_eq)
  qed
  have b: "0xfa \<le> n \<and> n < 2 ^ 48 \<longrightarrow>
        encode_length n = Inr (of_nat (0xf9 + byte_count n) # be_bytes (byte_count n) n)
        \<and> from_be (be_bytes (byte_count n) n) = n"
  proof
    assume h: "0xfa \<le> n \<and> n < 2 ^ 48"
    then have "\<not> 6 < byte_count n" by (simp add: byte_count_gt6)
    with h have "encode_length n
        = Inr (of_nat (byte_count n + 0xf9) # be_bytes (byte_count n) n)"
      by (simp add: encode_length_eq)
    moreover have "from_be (be_bytes (byte_count n) n) = n"
      using less_256_pow_byte_count by (rule from_be_be_bytes)
    ultimately show "encode_length n
        = Inr (of_nat (0xf9 + byte_count n) # be_bytes (byte_count n) n)
        \<and> from_be (be_bytes (byte_count n) n) = n"
      by (simp add: add.commute)
  qed
  have c: "decode_length (b # bs) 0 =
        (if 0xfa \<le> unat b
         then (from_be (take (unat b - 0xf9) bs), 1 + (unat b - 0xf9))
         else (unat b, 1))"
    by (simp add: decode_length_alt slice_def Let_def)
  have d: "1 \<le> n \<and> encode_length n = Inr p \<longrightarrow>
        decode_length (pre @ p @ rest) (length pre) = (n, length p)"
    using decode_encode_length by blast
  from a b c d enc300 enc5 show ?thesis unfolding byte_count_Least by blast
qed

theorem length_codec_framing_witness:
  "encode_length 7 = Inr [7]
   \<and> encode_length 1000 = Inr [0xfb, 0x03, 0xe8]
   \<and> decode_length ([0x01] @ [0xfb, 0x03, 0xe8] @ [0x00]) 1 = (1000, 3)"
proof -
  have k: "(LEAST k. (1000::nat) < 256 ^ k) = 2"
  proof -
    have "byte_count 1000 = 2" by code_simp
    then show ?thesis by (simp only: byte_count_Least)
  qed
  have e: "be_bytes 2 1000 = [0x03, 0xe8]" by code_simp
  note t = length_codec_framing [of 1000 _ _ "[0xfb, 0x03, 0xe8]" "[0x01]" "[0x00]",
      unfolded k e]
  have p: "encode_length 1000 = Inr [0xfb, 0x03, 0xe8]"
    using t by simp
  have q: "encode_length 7 = Inr [7]"
    using length_codec_framing [of 7] by simp
  have r: "decode_length ([0x01] @ [0xfb, 0x03, 0xe8] @ [0x00]) 1 = (1000, 3)"
    using t p by simp
  from p q r show ?thesis by simp
qed

text \<open>The claim as the specification states it fails at length 0, for which nothing is
  emitted.\<close>

theorem encode_length_zero_counterexample:
  "encode_length 0 = Inr [] \<and> encode_length 0 \<noteq> Inr [of_nat 0]"
  by (simp add: enc0)

subsection \<open>Claims about the wire codec\<close>




text \<open>
  C2. \<open>Integer.serialize\<close> with \<open>signed=True\<close> does not return an encoding for every integer:
  \<open>-129\<close> has bit length 8, no byte is added for a negative value, and \<open>to_bytes(1, 'big',
  signed=True)\<close> raises \<open>OverflowError\<close>. The sign padding of the positive side works (128
  gives \<open>00 80\<close>), and the two-byte two's complement \<open>ff 7f\<close> would be read back as \<open>-129\<close>.
\<close>

theorem Integer_serialize_negative_overflow:
  "Integer_serialize True (- 129) = Inl OverflowError
   \<and> serialize (IntegerField False (Value VNone) True) (VInt (- 129)) = Inl OverflowError
   \<and> Integer_serialize True 128 = Inr [0x00, 0x80]
   \<and> Integer_deserialize True [0xff, 0x7f] = - 129"
proof -
  have "Integer_deserialize True [0xff, 0x7f] = - 129"
    by (simp add: Integer_deserialize_def from_bytes_def from_be_def)
  then show ?thesis using Integer_serialize_m129 Integer_serialize_128 by simp
qed

text \<open>
  C4, as the code has it. In a record class with an optional \<open>Bytes\<close> or \<open>String\<close> field,
  the encoding of an object with the field set to the empty value differs from that of
  the object with the field absent: the empty value is framed as the chunk \<open>01 01\<close> (length
  1, then the presence byte), absence as the chunk \<open>00\<close>, the rest of the two encodings being
  the same; and the plugin reads the payload \<open>01\<close> back as the empty value.
\<close>

theorem empty_value_differs_from_absent:
  assumes "self = RecordField opt d name (Some (pre @ (key, field) # post))"
    and "distinct (map fst (pre @ (key, field) # post))"
    and "field = BytesField True dflt \<and> e = VBytes []
         \<or> field = StringField True dflt m \<and> e = VStr []"
    and "serialize self (VInst n (fmupd key e dict)) = Inr x"
    and "serialize self (VInst n (fmupd key VNone dict)) = Inr y"
  shows "x \<noteq> y
     \<and> chunk e (serialize field e) = Inr [0x01, 0x01]
     \<and> chunk VNone (serialize field VNone) = Inr [0x00]
     \<and> deserialize field [0x01] = Inr e
     \<and> (\<exists>p q. x = p @ [0x01, 0x01] @ q \<and> y = p @ [0x00] @ q)"
proof -
  define G where "G = (\<lambda>v. (\<lambda>(k, f). case getattr v k of
                               Inl e \<Rightarrow> Inl e
                             | Inr attr \<Rightarrow> chunk attr (serialize f attr)))"
  have ser: "serialize self v =
      (case collect (G v) pre of
         Inl e \<Rightarrow> Inl e
       | Inr P \<Rightarrow>
           (case G v (key, field) of
              Inl e \<Rightarrow> Inl e
            | Inr c \<Rightarrow>
                (case collect (G v) post of
                   Inl e \<Rightarrow> Inl e
                 | Inr Q \<Rightarrow> Inr (0x01 # concat (P @ [c] @ Q)))))" for v
    unfolding assms(1) G_def by (simp add: collect_append split: sum.splits)
  let ?a = "VInst n (fmupd key e dict)" and ?b = "VInst n (fmupd key VNone dict)"
  from assms(2) have k1: "key \<notin> fst ` set pre" and k2: "key \<notin> fst ` set post" by auto
  note c = empty_chunks [OF assms(3)]
  have ga: "G ?a (key, field) = Inr [0x01, 0x01]" unfolding G_def using c(1) by simp
  have gb: "G ?b (key, field) = Inr [0x00]" unfolding G_def using c(2) by simp
  have pe: "collect (G ?a) pre = collect (G ?b) pre"
    unfolding G_def by (rule collect_other_keys [OF k1])
  have qe: "collect (G ?a) post = collect (G ?b) post"
    unfolding G_def by (rule collect_other_keys [OF k2])
  from assms(4) obtain P Q where
    P: "collect (G ?a) pre = Inr P" and Q: "collect (G ?a) post = Inr Q"
    and x: "x = 0x01 # concat (P @ [[0x01, 0x01]] @ Q)"
    unfolding ser ga by (auto split: sum.splits)
  from assms(5) have y: "y = 0x01 # concat (P @ [[0x00]] @ Q)"
    unfolding ser gb pe [symmetric] qe [symmetric] P Q by simp
  have "x \<noteq> y" unfolding x y by simp
  moreover have "\<exists>p q. x = p @ [0x01, 0x01] @ q \<and> y = p @ [0x00] @ q"
    unfolding x y
    by (rule exI [of _ "0x01 # concat P"], rule exI [of _ "concat Q"]) simp
  ultimately show ?thesis using c by simp
qed

theorem empty_value_differs_from_absent_witness:
  "serialize Blob (blob (VBytes []) (VStr [])) = Inr [0x01, 0x01, 0x01, 0x01, 0x01]
   \<and> serialize Blob (blob VNone (VStr [])) = Inr [0x01, 0x00, 0x01, 0x01]
   \<and> serialize Blob (blob VNone VNone) = Inr [0x01, 0x00, 0x00]
   \<and> deserialize (BytesField True (Value VNone)) [0x01] = Inr (VBytes [])
   \<and> deserialize (StringField True (Value VNone) None) [0x01] = Inr (VStr [])"
proof -
  have a: "serialize Blob (blob (VBytes []) (VStr [])) = Inr [0x01, 0x01, 0x01, 0x01, 0x01]"
    by (simp add: Blob_def blob_def chunk_def enc1')
  have b: "serialize Blob (blob VNone (VStr [])) = Inr [0x01, 0x00, 0x01, 0x01]"
    by (simp add: Blob_def blob_def chunk_def enc1')
  have c: "serialize Blob (blob VNone VNone) = Inr [0x01, 0x00, 0x00]"
    by (simp add: Blob_def blob_def chunk_def enc1')
  have t: "fmupd ''text'' v (fmupd ''data'' w fmempty) = fmupd ''data'' w (fmupd ''text'' v fmempty)"
    for v w :: val
    by (rule fmap_ext) auto
  have d: "deserialize (BytesField True (Value VNone)) [0x01] = Inr (VBytes [])"
    using a b
      empty_value_differs_from_absent [where self = Blob and opt = False and d = "Value VNone"
        and name = "''Blob''" and pre = "[]" and key = "''data''"
        and field = "BytesField True (Value VNone)"
        and post = "[(''text'', StringField True (Value VNone) None)]"
        and dflt = "Value VNone" and e = "VBytes []" and n = "''BlobValues''"
        and dict = "fmupd ''text'' (VStr []) fmempty"
        and x = "[0x01, 0x01, 0x01, 0x01, 0x01]" and y = "[0x01, 0x00, 0x01, 0x01]"]
    by (simp add: Blob_def blob_def t)
  have e: "deserialize (StringField True (Value VNone) None) [0x01] = Inr (VStr [])"
    using b c
      empty_value_differs_from_absent [where self = Blob and opt = False and d = "Value VNone"
        and name = "''Blob''" and pre = "[(''data'', BytesField True (Value VNone))]"
        and key = "''text''" and field = "StringField True (Value VNone) None"
        and post = "[]" and dflt = "Value VNone" and m = None and e = "VStr []"
        and n = "''BlobValues''" and dict = "fmupd ''data'' VNone fmempty"
        and x = "[0x01, 0x00, 0x01, 0x01]" and y = "[0x01, 0x00, 0x00]"]
    by (simp add: Blob_def blob_def)
  from a b c d e show ?thesis by simp
qed

text \<open>The claim as the specification states it fails on the class \<open>Blob\<close>: the encoding
  with \<open>data=b''\<close> and the encoding with \<open>data=None\<close> differ, and the keyword arguments that
  \<open>Field.deserialize\<close> builds from them hold the empty value and \<open>None\<close>.\<close>

theorem empty_bytes_counterexample:
  "serialize Blob (blob (VBytes []) VNone) = Inr [0x01, 0x01, 0x01, 0x00]
   \<and> serialize Blob (blob VNone VNone) = Inr [0x01, 0x00, 0x00]
   \<and> deserialize_kwargs Blob [0x01, 0x01, 0x01, 0x00]
       = Inr [(''data'', VBytes []), (''text'', VNone)]
   \<and> deserialize_kwargs Blob [0x01, 0x00, 0x00]
       = Inr [(''data'', VNone), (''text'', VNone)]"
proof -
  have a: "serialize Blob (blob (VBytes []) VNone) = Inr [0x01, 0x01, 0x01, 0x00]"
    by (simp add: Blob_def blob_def chunk_def enc1')
  have b: "serialize Blob (blob VNone VNone) = Inr [0x01, 0x00, 0x00]"
    by (simp add: Blob_def blob_def chunk_def enc1')
  have c: "deserialize_kwargs Blob [0x01, 0x01, 0x01, 0x00]
       = Inr [(''data'', VBytes []), (''text'', VNone)]"
    by (simp add: deserialize_kwargs_def Blob_def chunks_1110)
  have d: "deserialize_kwargs Blob [0x01, 0x00, 0x00]
       = Inr [(''data'', VNone), (''text'', VNone)]"
    by (simp add: deserialize_kwargs_def Blob_def chunks_100)
  from a b c d show ?thesis by simp
qed

text \<open>
  C9. Whatever a plugin's \<open>serialize\<close> returns is at least one byte long, so that the item
  the parser cuts out of a chunk is empty exactly when the chunk was written for \<open>None\<close>.
\<close>

theorem payload_at_least_one_byte:
  "(serialize f v = Inr bs \<longrightarrow> 1 \<le> length bs)
   \<and> (chunk attr (serialize f attr) = Inr c \<longrightarrow>
        (\<exists>item. chunks (0x01 # c) 1 = [item] \<and> (item = []) = (attr = VNone)))"
proof -
  have a: "serialize f v = Inr bs \<longrightarrow> 1 \<le> length bs"
    using serialize_nonempty [of f v bs] by (cases bs) auto
  have b: "chunk attr (serialize f attr) = Inr c \<longrightarrow>
        (\<exists>item. chunks (0x01 # c) 1 = [item] \<and> (item = []) = (attr = VNone))"
  proof
    assume c: "chunk attr (serialize f attr) = Inr c"
    let ?body = "if attr = VNone then [] else (case serialize f attr of Inr data \<Rightarrow> data)"
    from chunk_framed [OF c] have "list_all2 framed [c] [?body]" by simp
    from chunks_framed_1 [OF this] have p: "chunks (0x01 # c) 1 = [?body]" by simp
    have "(?body = []) = (attr = VNone)"
    proof (cases "attr = VNone")
      case True
      then show ?thesis by simp
    next
      case False
      with c obtain data where d: "serialize f attr = Inr data"
        by (auto simp: chunk_def split: sum.splits)
      with serialize_nonempty [OF d] False show ?thesis by simp
    qed
    with p show "\<exists>item. chunks (0x01 # c) 1 = [item] \<and> (item = []) = (attr = VNone)"
      by blast
  qed
  from a b show ?thesis by blast
qed

theorem payload_at_least_one_byte_witness:
  "serialize (IntegerField False (Value VNone) True) (VInt 0) = Inr [0x00]
   \<and> serialize (BooleanField False (Value VNone)) (VBool False) = Inr [0x00]
   \<and> serialize (StringField False (Value VNone) None) (VStr []) = Inr [0x01]
   \<and> serialize (BytesField False (Value VNone)) (VBytes []) = Inr [0x01]
   \<and> serialize (ListField False (Value VNone) (BooleanField False (Value VNone))) (VList [])
       = Inr [0x01]
   \<and> (\<exists>item. chunks [0x01, 0x01, 0x00] 1 = [item] \<and> item \<noteq> [])"
proof -
  have i: "serialize (IntegerField False (Value VNone) True) (VInt 0) = Inr [0x00]"
    by (simp add: Integer_serialize_def) code_simp
  have c: "chunk (VInt 0) (serialize (IntegerField False (Value VNone) True) (VInt 0))
             = Inr [0x01, 0x00]"
    using i by (simp add: chunk_def enc1' del: serialize.simps)
  from payload_at_least_one_byte [of "IntegerField False (Value VNone) True" "VInt 0" "[0x00]"
      "VInt 0" "[0x01, 0x00]"] i c
  show ?thesis by simp
qed

subsection \<open>Claims about construction and validation\<close>




text \<open>
  C8, as the code has it. The methods that validate a field value do not know the name of
  the field, and the validation errors they raise carry none: \<open>check_optional\<close> raises
  \<open>cannot be None\<close>, \<open>String.check\<close> raises \<open>too long\<close>, \<open>Field.check_type\<close> raises
  \<open>is of type T, expected U\<close>. A validation error of \<open>List.check\<close> or \<open>List.check_type\<close> that
  comes from an element is the element's error with the marker \<open>inner element\<close> in front, so
  that a failure inside a list of lists surfaces as \<open>inner element inner element\<close> followed
  by the message.
\<close>

theorem validation_errors_carry_path:
  "(check_optional field v = Inl (ValidationError msg) \<longrightarrow> msg = ''cannot be None'')
   \<and> (check (StringField opt d m) v = Inl (ValidationError msg) \<longrightarrow> msg = ''too long'')
   \<and> (class_of field \<noteq> List_class \<and> check_type field v = Inl (ValidationError msg) \<longrightarrow>
        (\<exists>t. type_name field = Some t
              \<and> msg = ''is of type '' @ class_name v @ '', expected '' @ t))
   \<and> (iterate v = Inr l \<and> check (ListField opt d inner) v = Inl (ValidationError msg) \<longrightarrow>
        (\<exists>x \<in> set l. \<exists>m. check inner x = Inl (ValidationError m)
                            \<and> msg = ''inner element '' @ m))
   \<and> (check_type (ListField opt d inner) (VList l) = Inl (ValidationError msg) \<longrightarrow>
        (\<exists>x \<in> set l. \<exists>m. check_type inner x = Inl (ValidationError m)
                            \<and> msg = ''inner element '' @ m))
   \<and> (check (ListField opt d (ListField opt' d' inner)) (VList [VList [x]])
          = Inl (ValidationError msg) \<longrightarrow>
        (\<exists>m. check inner x = Inl (ValidationError m)
              \<and> msg = ''inner element inner element '' @ m))"
proof -
  have a: "check_optional field v = Inl (ValidationError msg) \<longrightarrow> msg = ''cannot be None''"
    by (simp add: check_optional_def)
  have b: "check (StringField opt d m) v = Inl (ValidationError msg) \<longrightarrow> msg = ''too long''"
    by (cases v) (auto split: option.splits if_splits)
  have c: "class_of field \<noteq> List_class \<and> check_type field v = Inl (ValidationError msg) \<longrightarrow>
        (\<exists>t. type_name field = Some t
              \<and> msg = ''is of type '' @ class_name v @ '', expected '' @ t)"
    by (cases field) (auto split: if_splits)
  have d: "iterate v = Inr l \<and> check (ListField opt d inner) v = Inl (ValidationError msg) \<longrightarrow>
        (\<exists>x \<in> set l. \<exists>m. check inner x = Inl (ValidationError m)
                            \<and> msg = ''inner element '' @ m)"
  proof
    assume h: "iterate v = Inr l \<and> check (ListField opt d inner) v = Inl (ValidationError msg)"
    then have "for_each (\<lambda>instance. prepend ''inner element '' (check inner instance)) l
                 = Inl (ValidationError msg)" by auto
    from for_each_VE [OF this]
    show "\<exists>x \<in> set l. \<exists>m. check inner x = Inl (ValidationError m)
                            \<and> msg = ''inner element '' @ m" by blast
  qed
  have e: "check_type (ListField opt d inner) (VList l) = Inl (ValidationError msg) \<longrightarrow>
        (\<exists>x \<in> set l. \<exists>m. check_type inner x = Inl (ValidationError m)
                            \<and> msg = ''inner element '' @ m)"
  proof
    assume "check_type (ListField opt d inner) (VList l) = Inl (ValidationError msg)"
    then have "for_each (\<lambda>instance. prepend ''inner element '' (check_type inner instance)) l
                 = Inl (ValidationError msg)" by simp
    from for_each_VE [OF this]
    show "\<exists>x \<in> set l. \<exists>m. check_type inner x = Inl (ValidationError m)
                            \<and> msg = ''inner element '' @ m" by blast
  qed
  have f: "check (ListField opt d (ListField opt' d' inner)) (VList [VList [x]])
          = Inl (ValidationError msg) \<longrightarrow>
        (\<exists>m. check inner x = Inl (ValidationError m)
              \<and> msg = ''inner element inner element '' @ m)"
  proof
    assume h: "check (ListField opt d (ListField opt' d' inner)) (VList [VList [x]])
          = Inl (ValidationError msg)"
    show "\<exists>m. check inner x = Inl (ValidationError m)
              \<and> msg = ''inner element inner element '' @ m"
    proof (cases "check inner x")
      case (Inr u)
      with h show ?thesis by simp
    next
      case (Inl e')
      with h show ?thesis by (cases e') auto
    qed
  qed
  from a b c d e f show ?thesis by blast
qed


theorem validation_errors_carry_path_witness:
  "check_optional (IntegerField False (Value VNone) True) VNone
     = Inl (ValidationError ''cannot be None'')
   \<and> check (StringField False (Value VNone) (Some 1)) (VStr [0x61, 0x62])
     = Inl (ValidationError ''too long'')
   \<and> check_type (IntegerField False (Value VNone) True) (VStr [])
     = Inl (ValidationError ''is of type str, expected int'')
   \<and> check (ListField False (Value VNone) (StringField False (Value VNone) (Some 1)))
        (VList [VStr [0x61], VStr [0x61, 0x62]])
     = Inl (ValidationError ''inner element too long'')
   \<and> check_type (ListField False (Value VNone) (IntegerField False (Value VNone) True))
        (VList [VInt 1, VStr []])
     = Inl (ValidationError ''inner element is of type str, expected int'')
   \<and> check (ListField False (Value VNone)
              (ListField False (Value VNone) (StringField False (Value VNone) (Some 1))))
        (VList [VList [VStr [0x61, 0x62]]])
     = Inl (ValidationError ''inner element inner element too long'')"
proof -
  have a: "check_optional (IntegerField False (Value VNone) True) VNone
     = Inl (ValidationError ''cannot be None'')"
    using validation_errors_carry_path [where field = "IntegerField False (Value VNone) True"
        and v = VNone and msg = "''cannot be None''"]
    by (simp add: check_optional_def)
  have b: "check (StringField False (Value VNone) (Some 1)) (VStr [0x61, 0x62])
     = Inl (ValidationError ''too long'')"
    using validation_errors_carry_path [where opt = False and d = "Value VNone"
        and m = "Some 1" and v = "VStr [0x61, 0x62]" and msg = "''too long''"]
    by simp
  have c: "check_type (IntegerField False (Value VNone) True) (VStr [])
     = Inl (ValidationError ''is of type str, expected int'')"
    using validation_errors_carry_path [where field = "IntegerField False (Value VNone) True"
        and v = "VStr []" and msg = "''is of type str, expected int''"]
    by simp
  have d: "check (ListField False (Value VNone) (StringField False (Value VNone) (Some 1)))
        (VList [VStr [0x61], VStr [0x61, 0x62]])
     = Inl (ValidationError ''inner element too long'')"
    using validation_errors_carry_path [where opt = False and d = "Value VNone"
        and inner = "StringField False (Value VNone) (Some 1)"
        and v = "VList [VStr [0x61], VStr [0x61, 0x62]]"
        and l = "[VStr [0x61], VStr [0x61, 0x62]]"
        and msg = "''inner element too long''"]
    by simp
  have e: "check_type (ListField False (Value VNone) (IntegerField False (Value VNone) True))
        (VList [VInt 1, VStr []])
     = Inl (ValidationError ''inner element is of type str, expected int'')"
    using validation_errors_carry_path [where opt = False and d = "Value VNone"
        and inner = "IntegerField False (Value VNone) True"
        and l = "[VInt 1, VStr []]"
        and msg = "''inner element is of type str, expected int''"]
    by simp
  have f: "check (ListField False (Value VNone)
              (ListField False (Value VNone) (StringField False (Value VNone) (Some 1))))
        (VList [VList [VStr [0x61, 0x62]]])
     = Inl (ValidationError ''inner element inner element too long'')"
    using validation_errors_carry_path [where opt = False and d = "Value VNone"
        and opt' = False and d' = "Value VNone"
        and inner = "StringField False (Value VNone) (Some 1)"
        and x = "VStr [0x61, 0x62]"
        and msg = "''inner element inner element too long''"]
    by simp
  from a b c d e f show ?thesis by simp
qed

text \<open>The claim as the specification states it fails on the field \<open>age\<close> of the class
  \<open>Person\<close> and on the field \<open>values\<close> of the class \<open>Numbers\<close>: the validation errors raised
  for \<open>None\<close> and for a list with an element of the wrong type carry no field name.\<close>

theorem validation_error_counterexample:
  "get_fields Person = Inr
     [(''age'', IntegerField False (Value VNone) True),
      (''name'', StringField False (Value VNone) (Some 50)),
      (''diabetic'', BooleanField False (Value (VBool True)))]
   \<and> check_optional (IntegerField False (Value VNone) True) VNone
       = Inl (ValidationError ''cannot be None'')
   \<and> ''cannot be None'' \<noteq> ''age cannot be None''
   \<and> get_fields Numbers
     = Inr [(''values'', ListField False (Value VNone) (IntegerField False (Value VNone) True))]
   \<and> check_type (ListField False (Value VNone) (IntegerField False (Value VNone) True))
        (VList [VStr []])
       = Inl (ValidationError ''inner element is of type str, expected int'')
   \<and> ''inner element is of type str, expected int''
       \<noteq> ''values inner element is of type str, expected int''"
  by (simp add: Person_def Numbers_def check_optional_def)

subsection \<open>Claims about deserialization\<close>



subsection \<open>Claims about the constructor\<close>




end
